theory Spec2Isabelle
  imports Main
begin

section \<open>Data model\<close>

text \<open>
  The repository holds three near-identical pools:
  \<^item> \<^verbatim>\<open>conn_pool.ConnPool\<close> of \<^verbatim>\<open>src/conn_pool/pool.go\<close>
    (methods \<^verbatim>\<open>Get\<close>, \<^verbatim>\<open>Close\<close>, \<^verbatim>\<open>Destroy\<close>; one package-wide mutex,
    unlocked by \<^verbatim>\<open>defer\<close>);
  \<^item> \<^verbatim>\<open>tcp_connpool.TcpConnPool\<close>, the first unit of \<^verbatim>\<open>src/tcp_connpool/pool.go\<close>
    (the same three methods, with \<^verbatim>\<open>open\<close> as the factory and a deadline set
    before the ping);
  \<^item> the second \<^verbatim>\<open>ConnPool\<close> of \<^verbatim>\<open>src/tcp_connpool/pool.go\<close> (file lines 202-318), which
    embeds its own \<^verbatim>\<open>sync.Mutex\<close> and has \<^verbatim>\<open>Get\<close>, \<^verbatim>\<open>Release\<close>,
    \<^verbatim>\<open>CloseClean\<close>, \<^verbatim>\<open>Destroy\<close>. Its definitions carry the suffix \<open>_mx\<close>
    where the name would clash with the first pool's.

  A connection is an opaque object; only its identity matters. A Go interface value
  (\<^verbatim>\<open>io.Closer\<close>, \<^verbatim>\<open>net.Conn\<close>) is either \<^verbatim>\<open>nil\<close> or a connection, so it is an
  \<open>option\<close>. Calling a method on a \<^verbatim>\<open>nil\<close> interface value panics, which is an
  outcome of its own.

  Go's \<^verbatim>\<open>int\<close> is a machine integer (64 bits wide on the 64-bit targets, taken here;
  on a 32-bit target read 32 for 64). The counter is an \<open>int\<close> and the wrap-around is
  written out where the code can reach it: the decrement of a full free list has no
  test before it, so it wraps at the least machine integer. The other two changes of
  the counter cannot leave the range: the guarded decrement runs when the counter is
  positive, and the increment when the free list is empty and the capacity test has
  passed, that is when \<^verbatim>\<open>conns < MaxConns\<close>.
\<close>

definition int_bits :: nat where
  "int_bits = 64"


text \<open>Two's complement wrap-around into \<open>- max_int - 1 .. max_int\<close>.\<close>

definition wrap_int :: "int \<Rightarrow> int" where
  "wrap_int x = (x + 2 ^ (int_bits - 1)) mod 2 ^ int_bits - 2 ^ (int_bits - 1)"

type_synonym conn = nat

type_synonym closer = "conn option"

text \<open>
  \<^verbatim>\<open>ErrMaxConn\<close> is the package's exported error value; \<open>Err s\<close> is any other error.
  The factory and the validator are the caller's functions and may return either.
\<close>

datatype error = ErrMaxConn | Err string

text \<open>
  What a call does to the world outside the pool's fields, in program order: the mutex
  operations, the calls of the injected factory (\<^verbatim>\<open>p.New()\<close>, \<^verbatim>\<open>n.open()\<close>) and
  validator (\<^verbatim>\<open>p.Ping(conn)\<close>, \<^verbatim>\<open>n.ping(conn)\<close>), and the method calls on a
  connection.
\<close>

datatype event =
    Lock
  | Unlock
  | Factory
  | Validator closer
  | CloseConn conn
  | SetReadDeadline conn
  | SetWriteDeadline conn

datatype 'a outcome = Return 'a | Panic

text \<open>The Go result pair \<^verbatim>\<open>(conn, err)\<close>; \<open>None\<close> is \<^verbatim>\<open>nil\<close> in both places.\<close>

type_synonym get_result = "(closer \<times> error option) outcome"

text \<open>
  The data fields of \<^verbatim>\<open>ConnPool\<close> (both packages declare the same ones). The fields
  \<^verbatim>\<open>New\<close> and \<^verbatim>\<open>Ping\<close> hold the owner's functions, whose results depend on the
  network; every \<open>Get\<close> below takes what they answer during that call as arguments:
  the pair \<^verbatim>\<open>p.New()\<close> returns if it is called, and the error \<^verbatim>\<open>p.Ping\<close> returns
  for each argument.
\<close>

record ConnPool =
  Name :: string
  MaxConns :: int
  MaxIdle :: int
  conns :: int
  free :: "closer list"

record TcpConnPool =
  name :: string
  max_conns :: int
  max_idle :: int
  tcp_conns :: int
  dial_timeout :: int
  tcp_free :: "closer list"

section \<open>conn\_pool.ConnPool (src/conn\_pool/pool.go)\<close>

definition NewConnPool :: "string \<Rightarrow> int \<Rightarrow> int \<Rightarrow> ConnPool" where
  "NewConnPool nm mc mi =
     \<lparr>Name = nm, MaxConns = mc, MaxIdle = mi, conns = 0, free = []\<rparr>"

text \<open>
  Lines 84-99 of \<^verbatim>\<open>Get\<close>: the ping of the candidate and what follows it. \<open>evs\<close> are
  the events so far. The mutex is unlocked by the deferred call, also when
  \<^verbatim>\<open>conn.Close()\<close> panics on a \<^verbatim>\<open>nil\<close> candidate.
\<close>

definition Get_ping ::
  "ConnPool \<Rightarrow> closer \<Rightarrow> bool \<Rightarrow> (closer \<Rightarrow> error option) \<Rightarrow> event list
    \<Rightarrow> get_result \<times> ConnPool \<times> event list" where
  "Get_ping p c new_conn Ping evs =
     (case Ping c of
        Some e \<Rightarrow>
          (let p' = (if \<not> new_conn \<and> conns p > 0 then p\<lparr>conns := conns p - 1\<rparr> else p) in
           case c of
             None \<Rightarrow> (Panic, p', evs @ [Validator c, Unlock])
           | Some h \<Rightarrow> (Return (None, Some e), p', evs @ [Validator c, CloseConn h, Unlock]))
      | None \<Rightarrow>
          (Return (c, None),
           (if new_conn then p\<lparr>conns := conns p + 1\<rparr> else p),
           evs @ [Validator c, Unlock]))"

text \<open>Lines 62-82 of \<^verbatim>\<open>Get\<close>, then \<open>Get_ping\<close>.\<close>

definition Get ::
  "ConnPool \<Rightarrow> closer \<times> error option \<Rightarrow> (closer \<Rightarrow> error option)
    \<Rightarrow> get_result \<times> ConnPool \<times> event list" where
  "Get p New Ping =
     (if conns p \<ge> MaxConns p \<and> length (free p) = 0
      then (Return (None, Some ErrMaxConn), p, [Lock, Unlock])
      else
        (case free p of
           c # rest \<Rightarrow> Get_ping (p\<lparr>free := rest\<rparr>) c False Ping [Lock]
         | [] \<Rightarrow>
             (case New of
                (c, Some e) \<Rightarrow> (Return (None, Some e), p, [Lock, Factory, Unlock])
              | (c, None) \<Rightarrow> Get_ping p c True Ping [Lock, Factory])))"

text \<open>\<^verbatim>\<open>Close\<close> (lines 102-121) always returns \<^verbatim>\<open>nil\<close>; the model returns the pool and the events.\<close>

definition Close :: "ConnPool \<Rightarrow> closer \<Rightarrow> ConnPool \<times> event list" where
  "Close p c =
     (case c of
        Some h \<Rightarrow>
          (if int (length (free p)) \<ge> MaxIdle p
           then (p\<lparr>conns := wrap_int (conns p - 1)\<rparr>, [Lock, CloseConn h, Unlock])
           else (p\<lparr>free := free p @ [c]\<rparr>, [Lock, Unlock]))
      | None \<Rightarrow>
          ((if conns p > 0 then p\<lparr>conns := conns p - 1\<rparr> else p), [Lock, Unlock]))"

text \<open>
  \<^verbatim>\<open>Destroy\<close> (lines 123-134) closes the non-nil members of the free list. Its last
  statement \<^verbatim>\<open>p = nil\<close> assigns to the method's own copy of the receiver pointer, so
  the pool object keeps all its fields.
\<close>

fun close_all :: "closer list \<Rightarrow> event list" where
  "close_all [] = []"
| "close_all (None # cs) = close_all cs"
| "close_all (Some h # cs) = CloseConn h # close_all cs"

definition Destroy :: "ConnPool \<Rightarrow> ConnPool \<times> event list" where
  "Destroy p = (p, [Lock] @ close_all (free p) @ [Unlock])"

section \<open>tcp\_connpool.TcpConnPool (src/tcp\_connpool/pool.go, lines 44-164)\<close>

definition NewTcpConnPool :: "string \<Rightarrow> int \<Rightarrow> int \<Rightarrow> int \<Rightarrow> TcpConnPool" where
  "NewTcpConnPool nm mc mi dt =
     \<lparr>name = nm, max_conns = mc, max_idle = mi, tcp_conns = 0, dial_timeout = dt, tcp_free = []\<rparr>"

text \<open>
  \<^verbatim>\<open>open\<close> (lines 120-130): \<open>resolve\<close> is the error of \<^verbatim>\<open>net.ResolveTCPAddr\<close> and
  \<open>dial\<close> the pair \<^verbatim>\<open>net.DialTimeout\<close> returns.
\<close>

definition tcp_open :: "error option \<Rightarrow> closer \<times> error option \<Rightarrow> closer \<times> error option" where
  "tcp_open resolve dial =
     (case resolve of
        Some e \<Rightarrow> (None, Some e)
      | None \<Rightarrow> (case dial of (c, Some e) \<Rightarrow> (None, Some e) | (c, None) \<Rightarrow> (c, None)))"

text \<open>Lines 100-117 of \<^verbatim>\<open>Get\<close>: the deadlines when \<^verbatim>\<open>timeout > 0\<close>, then the ping.\<close>

definition tcp_Get_ping ::
  "TcpConnPool \<Rightarrow> int \<Rightarrow> closer \<Rightarrow> bool \<Rightarrow> (closer \<Rightarrow> error option) \<Rightarrow> event list
    \<Rightarrow> get_result \<times> TcpConnPool \<times> event list" where
  "tcp_Get_ping n timeout c new_conn ping evs =
     (if timeout > 0 \<and> c = None then (Panic, n, evs @ [Unlock])
      else
        (let evs' = evs @ (case c of
                             Some h \<Rightarrow> if timeout > 0 then [SetReadDeadline h, SetWriteDeadline h] else []
                           | None \<Rightarrow> [])
         in
         case ping c of
           Some e \<Rightarrow>
             (let n' = (if \<not> new_conn \<and> tcp_conns n > 0 then n\<lparr>tcp_conns := tcp_conns n - 1\<rparr> else n) in
              case c of
                None \<Rightarrow> (Panic, n', evs' @ [Validator c, Unlock])
              | Some h \<Rightarrow> (Return (None, Some e), n', evs' @ [Validator c, CloseConn h, Unlock]))
         | None \<Rightarrow>
             (Return (c, None),
              (if new_conn then n\<lparr>tcp_conns := tcp_conns n + 1\<rparr> else n),
              evs' @ [Validator c, Unlock])))"

text \<open>
  Lines 76-98 of \<^verbatim>\<open>Get\<close>, then \<open>tcp_Get_ping\<close>. The field \<^verbatim>\<open>ping\<close> and the two
  network calls of \<^verbatim>\<open>open\<close> answer as the arguments \<open>ping\<close>, \<open>resolve\<close> and
  \<open>dial\<close> say.
\<close>

definition tcp_Get ::
  "TcpConnPool \<Rightarrow> int \<Rightarrow> error option \<Rightarrow> closer \<times> error option \<Rightarrow> (closer \<Rightarrow> error option)
    \<Rightarrow> get_result \<times> TcpConnPool \<times> event list" where
  "tcp_Get n timeout resolve dial ping =
     (if tcp_conns n \<ge> max_conns n \<and> length (tcp_free n) = 0
      then (Return (None, Some ErrMaxConn), n, [Lock, Unlock])
      else
        (case tcp_free n of
           c # rest \<Rightarrow> tcp_Get_ping (n\<lparr>tcp_free := rest\<rparr>) timeout c False ping [Lock]
         | [] \<Rightarrow>
             (case tcp_open resolve dial of
                (c, Some e) \<Rightarrow> (Return (None, Some e), n, [Lock, Factory, Unlock])
              | (c, None) \<Rightarrow> tcp_Get_ping n timeout c True ping [Lock, Factory])))"

definition tcp_Close :: "TcpConnPool \<Rightarrow> closer \<Rightarrow> TcpConnPool \<times> event list" where
  "tcp_Close n c =
     (case c of
        Some h \<Rightarrow>
          (if int (length (tcp_free n)) \<ge> max_idle n
           then (n\<lparr>tcp_conns := wrap_int (tcp_conns n - 1)\<rparr>, [Lock, CloseConn h, Unlock])
           else (n\<lparr>tcp_free := tcp_free n @ [c]\<rparr>, [Lock, Unlock]))
      | None \<Rightarrow>
          ((if tcp_conns n > 0 then n\<lparr>tcp_conns := tcp_conns n - 1\<rparr> else n), [Lock, Unlock]))"

definition tcp_Destroy :: "TcpConnPool \<Rightarrow> TcpConnPool \<times> event list" where
  "tcp_Destroy n = (n, [Lock] @ close_all (tcp_free n) @ [Unlock])"

section \<open>The ConnPool with its own mutex (src/tcp\_connpool/pool.go, lines 202-318)\<close>

text \<open>
  Lines 250-270 of \<^verbatim>\<open>Get\<close>. The mutex is not held when this part starts; it is taken
  again around each change of \<^verbatim>\<open>conns\<close>, and \<^verbatim>\<open>conn.Close()\<close> comes after the unlock.
\<close>

definition Get_ping_mx ::
  "ConnPool \<Rightarrow> closer \<Rightarrow> bool \<Rightarrow> (closer \<Rightarrow> error option) \<Rightarrow> event list
    \<Rightarrow> get_result \<times> ConnPool \<times> event list" where
  "Get_ping_mx p c new_conn Ping evs =
     (case Ping c of
        Some e \<Rightarrow>
          (let p' = (if \<not> new_conn \<and> conns p > 0 then p\<lparr>conns := conns p - 1\<rparr> else p) in
           case c of
             None \<Rightarrow> (Panic, p', evs @ [Validator c, Lock, Unlock])
           | Some h \<Rightarrow> (Return (None, Some e), p', evs @ [Validator c, Lock, Unlock, CloseConn h]))
      | None \<Rightarrow>
          (if new_conn
           then (Return (c, None), p\<lparr>conns := conns p + 1\<rparr>, evs @ [Validator c, Lock, Unlock])
           else (Return (c, None), p, evs @ [Validator c])))"

text \<open>Lines 227-248 of \<^verbatim>\<open>Get\<close>, then \<open>Get_ping_mx\<close>.\<close>

definition Get_mx ::
  "ConnPool \<Rightarrow> closer \<times> error option \<Rightarrow> (closer \<Rightarrow> error option)
    \<Rightarrow> get_result \<times> ConnPool \<times> event list" where
  "Get_mx p New Ping =
     (if conns p \<ge> MaxConns p \<and> length (free p) = 0
      then (Return (None, Some ErrMaxConn), p, [Lock, Unlock])
      else
        (case free p of
           c # rest \<Rightarrow> Get_ping_mx (p\<lparr>free := rest\<rparr>) c False Ping [Lock, Unlock]
         | [] \<Rightarrow>
             (case New of
                (c, Some e) \<Rightarrow> (Return (None, Some e), p, [Lock, Factory, Unlock])
              | (c, None) \<Rightarrow> Get_ping_mx p c True Ping [Lock, Factory, Unlock])))"

text \<open>
  Between its first \<^verbatim>\<open>p.Unlock()\<close> (line 248) and the next \<^verbatim>\<open>p.Lock()\<close> a
  \<^verbatim>\<open>Get\<close> holds its candidate and the flag \<^verbatim>\<open>new_conn\<close> in local variables, and
  other calls on the pool can run. \<open>Get_begin_mx\<close> is the part up to line 248 on its
  own: it ends with the early result (\<open>Inl\<close>) or with the candidate and the flag
  (\<open>Inr\<close>), which \<open>Get_ping_mx\<close> takes up.
\<close>

definition Get_begin_mx ::
  "ConnPool \<Rightarrow> closer \<times> error option
    \<Rightarrow> (get_result + closer \<times> bool) \<times> ConnPool \<times> event list" where
  "Get_begin_mx p New =
     (if conns p \<ge> MaxConns p \<and> length (free p) = 0
      then (Inl (Return (None, Some ErrMaxConn)), p, [Lock, Unlock])
      else
        (case free p of
           c # rest \<Rightarrow> (Inr (c, False), p\<lparr>free := rest\<rparr>, [Lock, Unlock])
         | [] \<Rightarrow>
             (case New of
                (c, Some e) \<Rightarrow> (Inl (Return (None, Some e)), p, [Lock, Factory, Unlock])
              | (c, None) \<Rightarrow> (Inr (c, True), p, [Lock, Factory, Unlock]))))"

text \<open>
  \<^verbatim>\<open>Release\<close> (lines 273-286) has no \<^verbatim>\<open>nil\<close> test and no call of \<^verbatim>\<open>conn.Close()\<close>:
  on a full free list it only logs and decrements.
\<close>

definition Release :: "ConnPool \<Rightarrow> closer \<Rightarrow> ConnPool \<times> event list" where
  "Release p c =
     (if int (length (free p)) \<ge> MaxIdle p
      then (p\<lparr>conns := wrap_int (conns p - 1)\<rparr>, [Lock, Unlock])
      else (p\<lparr>free := free p @ [c]\<rparr>, [Lock, Unlock]))"

text \<open>\<^verbatim>\<open>CloseClean\<close> (lines 288-300) closes before it locks.\<close>

definition CloseClean :: "ConnPool \<Rightarrow> closer \<Rightarrow> ConnPool \<times> event list" where
  "CloseClean p c =
     ((if conns p > 0 then p\<lparr>conns := conns p - 1\<rparr> else p),
      (case c of Some h \<Rightarrow> [CloseConn h] | None \<Rightarrow> []) @ [Lock, Unlock])"

definition Destroy_mx :: "ConnPool \<Rightarrow> ConnPool \<times> event list" where
  "Destroy_mx p = (p, [Lock] @ close_all (free p) @ [Unlock])"

section \<open>Callers\<close>













text \<open>
  \<open>repeat_get g p k\<close> calls the acquire operation \<open>g\<close> \<open>k\<close> times in a row and
  collects the results and the events.
\<close>

fun repeat_get ::
  "('p \<Rightarrow> get_result \<times> 'p \<times> event list) \<Rightarrow> 'p \<Rightarrow> nat \<Rightarrow> get_result list \<times> 'p \<times> event list" where
  "repeat_get g p 0 = ([], p, [])"
| "repeat_get g p (Suc k) =
     (case g p of
        (r, p', evs) \<Rightarrow>
          (case repeat_get g p' k of
             (rs, p'', evs') \<Rightarrow> (r # rs, p'', evs @ evs')))"

text \<open>A caller that returns the handles \<open>hs\<close> one by one.\<close>

fun close_each :: "ConnPool \<Rightarrow> conn list \<Rightarrow> ConnPool" where
  "close_each p [] = p"
| "close_each p (h # hs) = close_each (fst (Close p (Some h))) hs"

fun release_each :: "ConnPool \<Rightarrow> closer list \<Rightarrow> ConnPool" where
  "release_each p [] = p"
| "release_each p (c # cs) = release_each (fst (Release p c)) cs"

section \<open>The lock along a trace\<close>

text \<open>
  \<open>under_lock held es\<close> keeps the calls of \<open>es\<close> made while the mutex is held, and
  \<open>outside_lock held es\<close> those made while it is not; \<open>held\<close> says whether it is held
  when \<open>es\<close> starts.
\<close>

fun under_lock :: "bool \<Rightarrow> event list \<Rightarrow> event list" where
  "under_lock held [] = []"
| "under_lock held (Lock # es) = under_lock True es"
| "under_lock held (Unlock # es) = under_lock False es"
| "under_lock held (e # es) = (if held then e # under_lock held es else under_lock held es)"

fun outside_lock :: "bool \<Rightarrow> event list \<Rightarrow> event list" where
  "outside_lock held [] = []"
| "outside_lock held (Lock # es) = outside_lock True es"
| "outside_lock held (Unlock # es) = outside_lock False es"
| "outside_lock held (e # es) = (if held then outside_lock held es else e # outside_lock held es)"

section \<open>Machine integers\<close>



section \<open>Release on a full free list\<close>

text \<open>
  C1. With the free list at capacity, returning a non-nil handle is claimed to close
  the handle and to decrement the counter behind a guard against underflow. The three
  pools decrement without a test: on a fresh pool with \<^verbatim>\<open>MaxIdle = 0\<close> the counter
  goes from 0 to -1. \<open>Release\<close> moreover never closes the handle: with two
  connections out and \<^verbatim>\<open>MaxIdle = 1\<close>, the second one returned is dropped from the
  count and left open.
\<close>

theorem release_full_unguarded:
  "conns (fst (Release (NewConnPool ''db'' 1 0) (Some 7))) = -1
   \<and> conns (fst (Close (NewConnPool ''db'' 1 0) (Some 7))) = -1
   \<and> tcp_conns (fst (tcp_Close (NewTcpConnPool ''db:5432'' 1 0 100) (Some 7))) = -1
   \<and> Release \<lparr>Name = ''db'', MaxConns = 2, MaxIdle = 1, conns = 2, free = [Some 7]\<rparr> (Some 8)
       = (\<lparr>Name = ''db'', MaxConns = 2, MaxIdle = 1, conns = 1, free = [Some 7]\<rparr>, [Lock, Unlock])
   \<and> Close \<lparr>Name = ''db'', MaxConns = 2, MaxIdle = 1, conns = 2, free = [Some 7]\<rparr> (Some 8)
       = (\<lparr>Name = ''db'', MaxConns = 2, MaxIdle = 1, conns = 1, free = [Some 7]\<rparr>,
          [Lock, CloseConn 8, Unlock])"
  by (simp add: Release_def Close_def tcp_Close_def NewConnPool_def NewTcpConnPool_def
      wrap_int_def int_bits_def)

section \<open>The bounds along a run\<close>















text \<open>
  The acquire of the pool with its own mutex, run alone, is its two parts one after
  the other.
\<close>

lemma Get_mx_two_parts:
  "Get_mx p New Ping =
     (case Get_begin_mx p New of
        (Inl r, p', evs) \<Rightarrow> (r, p', evs)
      | (Inr (c, new_conn), p', evs) \<Rightarrow> Get_ping_mx p' c new_conn Ping evs)"
  by (simp add: Get_mx_def Get_begin_mx_def split: list.splits prod.splits option.splits)








section \<open>Teardown\<close>

text \<open>\<open>Destroy\<close> closes each connection of the free list, and nothing else.\<close>

lemma close_all_closes: "Some h \<in> set cs \<Longrightarrow> CloseConn h \<in> set (close_all cs)"
  by (induction cs rule: close_all.induct) auto

lemma close_all_only: "CloseConn h \<in> set (close_all cs) \<Longrightarrow> Some h \<in> set cs"
  by (induction cs rule: close_all.induct) auto

lemma destroy_closes_free:
  "Some h \<in> set (free p) \<Longrightarrow>
     CloseConn h \<in> set (snd (Destroy p)) \<and> CloseConn h \<in> set (snd (Destroy_mx p))"
  by (simp add: Destroy_def Destroy_mx_def close_all_closes)

lemma tcp_destroy_closes_free:
  "Some h \<in> set (tcp_free n) \<Longrightarrow> CloseConn h \<in> set (snd (tcp_Destroy n))"
  by (simp add: tcp_Destroy_def close_all_closes)

text \<open>
  C3. Teardown is claimed to close every connection of the free list and to leave the
  pool unusable: no later operation hands out a connection. The first half holds
  (\<open>destroy_closes_free\<close>). For the second, \<^verbatim>\<open>Destroy\<close> ends with \<^verbatim>\<open>p = nil\<close>,
  which changes only the method's local receiver: the pool keeps its free list, its
  counter and its limits. After \<open>Destroy\<close> a \<open>Get\<close> hands out connection 3, which
  \<open>Destroy\<close> has just closed and left in the free list, and on a fresh pool a \<open>Get\<close>
  after \<open>Destroy\<close> dials and hands out a new connection, in each of the three pools.
\<close>

theorem destroy_leaves_pool_usable:
  "Destroy \<lparr>Name = ''db'', MaxConns = 2, MaxIdle = 2, conns = 2, free = [Some 3, Some 4]\<rparr>
     = (\<lparr>Name = ''db'', MaxConns = 2, MaxIdle = 2, conns = 2, free = [Some 3, Some 4]\<rparr>,
        [Lock, CloseConn 3, CloseConn 4, Unlock])
   \<and> fst (Get (fst (Destroy \<lparr>Name = ''db'', MaxConns = 2, MaxIdle = 2, conns = 2, free = [Some 3, Some 4]\<rparr>))
             (None, Some (Err ''unused'')) (\<lambda>c. None)) = Return (Some 3, None)
   \<and> fst (Get (fst (Destroy (NewConnPool ''db'' 1 1))) (Some 9, None) (\<lambda>c. None)) = Return (Some 9, None)
   \<and> fst (Get_mx (fst (Destroy_mx (NewConnPool ''db'' 1 1))) (Some 9, None) (\<lambda>c. None)) = Return (Some 9, None)
   \<and> fst (tcp_Get (fst (tcp_Destroy (NewTcpConnPool ''db:5432'' 1 1 100))) 0 None (Some 9, None) (\<lambda>c. None))
       = Return (Some 9, None)"
  by (simp add: Destroy_def Destroy_mx_def tcp_Destroy_def Get_def Get_ping_def Get_mx_def Get_ping_mx_def
      tcp_Get_def tcp_Get_ping_def tcp_open_def NewConnPool_def NewTcpConnPool_def)

section \<open>Validation failure in Get\<close>

text \<open>
  A \<^verbatim>\<open>nil\<close> candidate (a \<^verbatim>\<open>nil\<close> stored by \<open>Release\<close>, or a factory that returns
  \<^verbatim>\<open>nil, nil\<close>) whose ping fails is not a connection that can be closed: the call
  \<^verbatim>\<open>conn.Close()\<close> panics.
\<close>

lemma get_nil_candidate_panics:
  "Ping None = Some e \<Longrightarrow> free p = None # rest \<Longrightarrow>
     fst (Get p New Ping) = Panic \<and> fst (Get_mx p New Ping) = Panic"
  by (simp add: Get_def Get_ping_def Get_mx_def Get_ping_mx_def)

text \<open>
  C4. The claim is made for every \<open>Get\<close> in which the validator fails on the
  candidate: the candidate is closed and not returned, the counter is decremented
  behind a guard for a reused candidate and unchanged for a new one, and the
  validator's error is returned. No \<open>Get\<close> tests its candidate for \<^verbatim>\<open>nil\<close>, so the
  claim fails for a \<^verbatim>\<open>nil\<close> candidate, shown below. What holds is the claim for a
  candidate that is a connection \<open>h\<close>: \<open>Get\<close> closes \<open>h\<close> and returns \<^verbatim>\<open>nil\<close> and the
  validator's error \<open>e\<close>; a candidate popped from the free list costs one unit of the
  counter when the counter is positive and none otherwise; for a new candidate (free
  list empty, counter below the limit, factory succeeded) the pool is unchanged.
  Stated for the three pools.
\<close>

theorem ping_failure:
  assumes "Ping (Some h) = Some e"
  shows "(free p = Some h # rest \<longrightarrow>
            Get p New Ping =
              (Return (None, Some e),
               p\<lparr>free := rest, conns := (if conns p > 0 then conns p - 1 else conns p)\<rparr>,
               [Lock, Validator (Some h), CloseConn h, Unlock]))
       \<and> (free p = [] \<and> conns p < MaxConns p \<longrightarrow>
            Get p (Some h, None) Ping =
              (Return (None, Some e), p, [Lock, Factory, Validator (Some h), CloseConn h, Unlock]))
       \<and> (free p = Some h # rest \<longrightarrow>
            Get_mx p New Ping =
              (Return (None, Some e),
               p\<lparr>free := rest, conns := (if conns p > 0 then conns p - 1 else conns p)\<rparr>,
               [Lock, Unlock, Validator (Some h), Lock, Unlock, CloseConn h]))
       \<and> (free p = [] \<and> conns p < MaxConns p \<longrightarrow>
            Get_mx p (Some h, None) Ping =
              (Return (None, Some e), p, [Lock, Factory, Unlock, Validator (Some h), Lock, Unlock, CloseConn h]))
       \<and> (tcp_free n = Some h # rest \<longrightarrow>
            tcp_Get n timeout resolve dial Ping =
              (Return (None, Some e),
               n\<lparr>tcp_free := rest, tcp_conns := (if tcp_conns n > 0 then tcp_conns n - 1 else tcp_conns n)\<rparr>,
               [Lock] @ (if timeout > 0 then [SetReadDeadline h, SetWriteDeadline h] else [])
                 @ [Validator (Some h), CloseConn h, Unlock]))
       \<and> (tcp_free n = [] \<and> tcp_conns n < max_conns n \<longrightarrow>
            tcp_Get n timeout None (Some h, None) Ping =
              (Return (None, Some e), n,
               [Lock, Factory] @ (if timeout > 0 then [SetReadDeadline h, SetWriteDeadline h] else [])
                 @ [Validator (Some h), CloseConn h, Unlock]))"
  using assms
  by (auto simp: Get_def Get_ping_def Get_mx_def Get_ping_mx_def tcp_Get_def tcp_Get_ping_def tcp_open_def)

theorem ping_failure_witness:
  "Get \<lparr>Name = ''db'', MaxConns = 2, MaxIdle = 2, conns = 1, free = [Some 7]\<rparr>
       (None, Some (Err ''unused'')) (\<lambda>c. Some (Err ''dead''))
     = (Return (None, Some (Err ''dead'')),
        \<lparr>Name = ''db'', MaxConns = 2, MaxIdle = 2, conns = 0, free = []\<rparr>,
        [Lock, Validator (Some 7), CloseConn 7, Unlock])
   \<and> Get (NewConnPool ''db'' 2 2) (Some 7, None) (\<lambda>c. Some (Err ''dead''))
     = (Return (None, Some (Err ''dead'')), NewConnPool ''db'' 2 2,
        [Lock, Factory, Validator (Some 7), CloseConn 7, Unlock])
   \<and> Get_mx \<lparr>Name = ''db'', MaxConns = 2, MaxIdle = 2, conns = 1, free = [Some 7]\<rparr>
       (None, Some (Err ''unused'')) (\<lambda>c. Some (Err ''dead''))
     = (Return (None, Some (Err ''dead'')),
        \<lparr>Name = ''db'', MaxConns = 2, MaxIdle = 2, conns = 0, free = []\<rparr>,
        [Lock, Unlock, Validator (Some 7), Lock, Unlock, CloseConn 7])
   \<and> Get_mx (NewConnPool ''db'' 2 2) (Some 7, None) (\<lambda>c. Some (Err ''dead''))
     = (Return (None, Some (Err ''dead'')), NewConnPool ''db'' 2 2,
        [Lock, Factory, Unlock, Validator (Some 7), Lock, Unlock, CloseConn 7])
   \<and> tcp_Get \<lparr>name = ''db:5432'', max_conns = 2, max_idle = 2, tcp_conns = 1, dial_timeout = 100,
                tcp_free = [Some 7]\<rparr> 50 None (None, Some (Err ''unused'')) (\<lambda>c. Some (Err ''dead''))
     = (Return (None, Some (Err ''dead'')),
        \<lparr>name = ''db:5432'', max_conns = 2, max_idle = 2, tcp_conns = 0, dial_timeout = 100, tcp_free = []\<rparr>,
        [Lock, SetReadDeadline 7, SetWriteDeadline 7, Validator (Some 7), CloseConn 7, Unlock])
   \<and> tcp_Get (NewTcpConnPool ''db:5432'' 2 2 100) 0 None (Some 7, None) (\<lambda>c. Some (Err ''dead''))
     = (Return (None, Some (Err ''dead'')), NewTcpConnPool ''db:5432'' 2 2 100,
        [Lock, Factory, Validator (Some 7), CloseConn 7, Unlock])"
  using ping_failure [of "\<lambda>c. Some (Err ''dead'')" 7 "Err ''dead''"
      "\<lparr>Name = ''db'', MaxConns = 2, MaxIdle = 2, conns = 1, free = [Some 7]\<rparr>" "[]"
      "(None, Some (Err ''unused''))"
      "\<lparr>name = ''db:5432'', max_conns = 2, max_idle = 2, tcp_conns = 1, dial_timeout = 100,
                tcp_free = [Some 7]\<rparr>" 50 None "(None, Some (Err ''unused''))"]
    ping_failure [of "\<lambda>c. Some (Err ''dead'')" 7 "Err ''dead''" "NewConnPool ''db'' 2 2" _ _
      "NewTcpConnPool ''db:5432'' 2 2 100" 0]
  by (simp add: NewConnPool_def NewTcpConnPool_def)

text \<open>
  A \<^verbatim>\<open>nil\<close> handed to \<open>Release\<close> is stored in the free list; the next \<open>Get\<close> takes
  it as its candidate, the validator rejects it, and \<^verbatim>\<open>conn.Close()\<close> panics: nothing
  is closed and the validator's error does not reach the caller. The same happens in
  the first pool when the factory returns \<^verbatim>\<open>nil, nil\<close>.
\<close>

theorem ping_failure_counterexample:
  "Release (NewConnPool ''db'' 1 1) None = ((NewConnPool ''db'' 1 1)\<lparr>free := [None]\<rparr>, [Lock, Unlock])
   \<and> Get_mx ((NewConnPool ''db'' 1 1)\<lparr>free := [None]\<rparr>) (Some 9, None) (\<lambda>c. Some (Err ''dead''))
       = (Panic, NewConnPool ''db'' 1 1, [Lock, Unlock, Validator None, Lock, Unlock])
   \<and> Get (NewConnPool ''db'' 1 1) (None, None) (\<lambda>c. Some (Err ''dead''))
       = (Panic, NewConnPool ''db'' 1 1, [Lock, Factory, Validator None, Unlock])"
  by (simp add: Release_def Get_mx_def Get_ping_mx_def Get_def Get_ping_def NewConnPool_def)

section \<open>The capacity check of Get\<close>

text \<open>
  C5. \<open>Get\<close> is claimed to return the MaxConnections error if and only if the counter
  has reached the limit and the free list is empty, and then to fail at once, with no
  call of the factory or the validator and no change of the pool. The "if" half and the
  rest hold as claimed. The "only if" half needs a proviso: \<open>Get\<close> passes the errors of
  the factory and of the validator through unchanged, and these are the caller's
  functions; when one of them returns \<^verbatim>\<open>ErrMaxConn\<close> (an exported value of the
  package), \<open>Get\<close> returns it although the check passed. With that case excluded, a
  \<open>Get\<close> whose check passes never returns \<^verbatim>\<open>ErrMaxConn\<close>.
\<close>

theorem max_conn_error:
  "(MaxConns p \<le> conns p \<and> free p = [] \<longrightarrow>
       Get p New Ping = (Return (None, Some ErrMaxConn), p, [Lock, Unlock])
     \<and> Get_mx p New Ping = (Return (None, Some ErrMaxConn), p, [Lock, Unlock]))
   \<and> (\<not> (MaxConns p \<le> conns p \<and> free p = []) \<and> snd New \<noteq> Some ErrMaxConn
        \<and> (\<forall>c. Ping c \<noteq> Some ErrMaxConn) \<longrightarrow>
       (\<forall>c. fst (Get p New Ping) \<noteq> Return (c, Some ErrMaxConn))
     \<and> (\<forall>c. fst (Get_mx p New Ping) \<noteq> Return (c, Some ErrMaxConn)))
   \<and> (max_conns n \<le> tcp_conns n \<and> tcp_free n = [] \<longrightarrow>
       tcp_Get n timeout resolve dial Ping = (Return (None, Some ErrMaxConn), n, [Lock, Unlock]))
   \<and> (\<not> (max_conns n \<le> tcp_conns n \<and> tcp_free n = []) \<and> resolve \<noteq> Some ErrMaxConn
        \<and> snd dial \<noteq> Some ErrMaxConn \<and> (\<forall>c. Ping c \<noteq> Some ErrMaxConn) \<longrightarrow>
       (\<forall>c. fst (tcp_Get n timeout resolve dial Ping) \<noteq> Return (c, Some ErrMaxConn)))"
proof -
  have a: "MaxConns p \<le> conns p \<and> free p = [] \<longrightarrow>
       Get p New Ping = (Return (None, Some ErrMaxConn), p, [Lock, Unlock])
     \<and> Get_mx p New Ping = (Return (None, Some ErrMaxConn), p, [Lock, Unlock])"
    by (simp add: Get_def Get_mx_def)
  have b: "\<not> (MaxConns p \<le> conns p \<and> free p = []) \<and> snd New \<noteq> Some ErrMaxConn
        \<and> (\<forall>c. Ping c \<noteq> Some ErrMaxConn) \<longrightarrow>
       (\<forall>c. fst (Get p New Ping) \<noteq> Return (c, Some ErrMaxConn))"
    by (cases "free p"; cases New; cases "snd New")
       (auto simp: Get_def Get_ping_def Let_def split: option.splits)
  have c: "\<not> (MaxConns p \<le> conns p \<and> free p = []) \<and> snd New \<noteq> Some ErrMaxConn
        \<and> (\<forall>c. Ping c \<noteq> Some ErrMaxConn) \<longrightarrow>
       (\<forall>c. fst (Get_mx p New Ping) \<noteq> Return (c, Some ErrMaxConn))"
    by (cases "free p"; cases New; cases "snd New")
       (auto simp: Get_mx_def Get_ping_mx_def Let_def split: option.splits)
  have d: "max_conns n \<le> tcp_conns n \<and> tcp_free n = [] \<longrightarrow>
       tcp_Get n timeout resolve dial Ping = (Return (None, Some ErrMaxConn), n, [Lock, Unlock])"
    by (simp add: tcp_Get_def)
  have e: "\<not> (max_conns n \<le> tcp_conns n \<and> tcp_free n = []) \<and> resolve \<noteq> Some ErrMaxConn
        \<and> snd dial \<noteq> Some ErrMaxConn \<and> (\<forall>c. Ping c \<noteq> Some ErrMaxConn) \<longrightarrow>
       (\<forall>c. fst (tcp_Get n timeout resolve dial Ping) \<noteq> Return (c, Some ErrMaxConn))"
    by (cases "tcp_free n"; cases resolve; cases dial; cases "snd dial")
       (auto simp: tcp_Get_def tcp_Get_ping_def tcp_open_def Let_def split: option.splits)
  from a b c d e show ?thesis by blast
qed

theorem max_conn_error_witness:
  "Get \<lparr>Name = ''db'', MaxConns = 1, MaxIdle = 1, conns = 1, free = []\<rparr> (Some 7, None) (\<lambda>c. None)
     = (Return (None, Some ErrMaxConn),
        \<lparr>Name = ''db'', MaxConns = 1, MaxIdle = 1, conns = 1, free = []\<rparr>, [Lock, Unlock])
   \<and> fst (Get (NewConnPool ''db'' 1 1) (None, Some (Err ''refused'')) (\<lambda>c. None))
       \<noteq> Return (None, Some ErrMaxConn)
   \<and> tcp_Get \<lparr>name = ''db:5432'', max_conns = 1, max_idle = 1, tcp_conns = 1, dial_timeout = 100,
                tcp_free = []\<rparr> 0 None (Some 7, None) (\<lambda>c. None)
     = (Return (None, Some ErrMaxConn),
        \<lparr>name = ''db:5432'', max_conns = 1, max_idle = 1, tcp_conns = 1, dial_timeout = 100,
                tcp_free = []\<rparr>, [Lock, Unlock])
   \<and> fst (tcp_Get (NewTcpConnPool ''db:5432'' 1 1 100) 0 (Some (Err ''no such host'')) (None, None) (\<lambda>c. None))
       \<noteq> Return (None, Some ErrMaxConn)"
  using max_conn_error [of "\<lparr>Name = ''db'', MaxConns = 1, MaxIdle = 1, conns = 1, free = []\<rparr>"
      "(Some 7, None)" "\<lambda>c. None"
      "\<lparr>name = ''db:5432'', max_conns = 1, max_idle = 1, tcp_conns = 1, dial_timeout = 100,
                tcp_free = []\<rparr>" 0 None "(Some 7, None)"]
    max_conn_error [of "NewConnPool ''db'' 1 1" "(None, Some (Err ''refused''))" "\<lambda>c. None"
      "NewTcpConnPool ''db:5432'' 1 1 100" 0 "Some (Err ''no such host'')" "(None, None)"]
  by (simp add: NewConnPool_def NewTcpConnPool_def)

text \<open>
  A fresh pool with room for one connection, whose factory fails with \<^verbatim>\<open>ErrMaxConn\<close>
  (as a factory that draws on a second pool of this package does when that pool is
  exhausted): \<open>Get\<close> returns \<^verbatim>\<open>ErrMaxConn\<close> while the counter is below the limit.
\<close>

theorem max_conn_error_counterexample:
  "\<not> (fst (Get (NewConnPool ''db'' 1 1) (None, Some ErrMaxConn) (\<lambda>c. None)) = Return (None, Some ErrMaxConn)
        \<longleftrightarrow> MaxConns (NewConnPool ''db'' 1 1) \<le> conns (NewConnPool ''db'' 1 1)
              \<and> free (NewConnPool ''db'' 1 1) = [])"
  by (simp add: Get_def NewConnPool_def)

section \<open>Discard\<close>

lemma discard_iter_nonneg:
  "0 \<le> conns p \<Longrightarrow> 0 \<le> conns (((\<lambda>q. fst (CloseClean q c)) ^^ k) p)
                      \<and> 0 \<le> conns (((\<lambda>q. fst (Close q None)) ^^ k) p)"
  by (induction k) (auto simp: CloseClean_def Close_def)

lemma tcp_discard_iter_nonneg:
  "0 \<le> tcp_conns n \<Longrightarrow> 0 \<le> tcp_conns (((\<lambda>q. fst (tcp_Close q None)) ^^ k) n)"
  by (induction k) (auto simp: tcp_Close_def)

text \<open>
  C6. Discard is \<open>CloseClean\<close> in the pool with its own mutex and \<open>Close\<close> with a
  \<^verbatim>\<open>nil\<close> handle in the other two. It takes one from the counter only when the
  counter is positive and leaves everything else alone, so any number \<open>k\<close> of
  discards in a row keeps a counter that is not negative from going below zero;
  \<open>CloseClean\<close> closes a handle that is present.
\<close>

theorem discard_guarded:
  "CloseClean p c =
     (p\<lparr>conns := (if conns p > 0 then conns p - 1 else conns p)\<rparr>,
      (case c of Some h \<Rightarrow> [CloseConn h] | None \<Rightarrow> []) @ [Lock, Unlock])
   \<and> Close p None = (p\<lparr>conns := (if conns p > 0 then conns p - 1 else conns p)\<rparr>, [Lock, Unlock])
   \<and> tcp_Close n None
       = (n\<lparr>tcp_conns := (if tcp_conns n > 0 then tcp_conns n - 1 else tcp_conns n)\<rparr>, [Lock, Unlock])
   \<and> CloseConn h \<in> set (snd (CloseClean p (Some h)))
   \<and> (0 \<le> conns p \<longrightarrow> 0 \<le> conns (((\<lambda>q. fst (CloseClean q c)) ^^ k) p)
                        \<and> 0 \<le> conns (((\<lambda>q. fst (Close q None)) ^^ k) p))
   \<and> (0 \<le> tcp_conns n \<longrightarrow> 0 \<le> tcp_conns (((\<lambda>q. fst (tcp_Close q None)) ^^ k) n))"
  using discard_iter_nonneg [where p = p and c = c and k = k]
    tcp_discard_iter_nonneg [where n = n and k = k]
  by (simp add: CloseClean_def Close_def tcp_Close_def)

theorem discard_guarded_witness:
  "(0::int) \<le> conns (NewConnPool ''db'' 2 1)
   \<and> 0 \<le> conns (((\<lambda>q. fst (CloseClean q (Some 7))) ^^ 3) (NewConnPool ''db'' 2 1))
   \<and> 0 \<le> conns (((\<lambda>q. fst (Close q None)) ^^ 3) (NewConnPool ''db'' 2 1))
   \<and> 0 \<le> tcp_conns (((\<lambda>q. fst (tcp_Close q None)) ^^ 3) (NewTcpConnPool ''db:5432'' 2 1 100))"
  using discard_guarded [where p = "NewConnPool ''db'' 2 1" and c = "Some 7"
      and n = "NewTcpConnPool ''db:5432'' 2 1 100" and h = 7 and k = 3]
  by (simp add: NewConnPool_def NewTcpConnPool_def)

section \<open>A limit that is not positive\<close>

text \<open>An acquire that leaves the pool as it was gives the same answer however often it is called.\<close>

lemma repeat_get_fixed:
  "g p = (r, p, evs) \<Longrightarrow> repeat_get g p k = (replicate k r, p, concat (replicate k evs))"
  by (induction k) auto

text \<open>
  C10. On a fresh pool built with \<^verbatim>\<open>max_conns \<le> 0\<close> every \<open>Get\<close> fails with
  \<^verbatim>\<open>ErrMaxConn\<close> whatever the factory and the validator would answer, takes and
  releases the lock and does nothing else (no factory call), and leaves the pool
  fresh; so do \<open>k\<close> calls in a row. Stated for the three pools.
\<close>

theorem nonpositive_max_conns:
  assumes "mc \<le> 0"
  shows "Get (NewConnPool nm mc mi) New Ping
           = (Return (None, Some ErrMaxConn), NewConnPool nm mc mi, [Lock, Unlock])
       \<and> Get_mx (NewConnPool nm mc mi) New Ping
           = (Return (None, Some ErrMaxConn), NewConnPool nm mc mi, [Lock, Unlock])
       \<and> tcp_Get (NewTcpConnPool nm mc mi dt) timeout resolve dial Ping
           = (Return (None, Some ErrMaxConn), NewTcpConnPool nm mc mi dt, [Lock, Unlock])
       \<and> repeat_get (\<lambda>q. Get q New Ping) (NewConnPool nm mc mi) k
           = (replicate k (Return (None, Some ErrMaxConn)), NewConnPool nm mc mi,
              concat (replicate k [Lock, Unlock]))
       \<and> repeat_get (\<lambda>q. Get_mx q New Ping) (NewConnPool nm mc mi) k
           = (replicate k (Return (None, Some ErrMaxConn)), NewConnPool nm mc mi,
              concat (replicate k [Lock, Unlock]))
       \<and> repeat_get (\<lambda>q. tcp_Get q timeout resolve dial Ping) (NewTcpConnPool nm mc mi dt) k
           = (replicate k (Return (None, Some ErrMaxConn)), NewTcpConnPool nm mc mi dt,
              concat (replicate k [Lock, Unlock]))
       \<and> Factory \<notin> set (concat (replicate k [Lock, Unlock]))"
proof -
  have a: "Get (NewConnPool nm mc mi) New Ping
           = (Return (None, Some ErrMaxConn), NewConnPool nm mc mi, [Lock, Unlock])"
    using assms by (simp add: Get_def NewConnPool_def)
  have b: "Get_mx (NewConnPool nm mc mi) New Ping
           = (Return (None, Some ErrMaxConn), NewConnPool nm mc mi, [Lock, Unlock])"
    using assms by (simp add: Get_mx_def NewConnPool_def)
  have c: "tcp_Get (NewTcpConnPool nm mc mi dt) timeout resolve dial Ping
           = (Return (None, Some ErrMaxConn), NewTcpConnPool nm mc mi dt, [Lock, Unlock])"
    using assms by (simp add: tcp_Get_def NewTcpConnPool_def)
  have d: "Factory \<notin> set (concat (replicate k [Lock, Unlock]))"
    by (induction k) auto
  from a b c d
    repeat_get_fixed [where g = "\<lambda>q. Get q New Ping", OF a, of k]
    repeat_get_fixed [where g = "\<lambda>q. Get_mx q New Ping", OF b, of k]
    repeat_get_fixed [where g = "\<lambda>q. tcp_Get q timeout resolve dial Ping", OF c, of k]
  show ?thesis by simp
qed

theorem nonpositive_max_conns_witness:
  "(0::int) \<le> 0
   \<and> Get (NewConnPool ''db'' 0 4) (Some 7, None) (\<lambda>c. None)
       = (Return (None, Some ErrMaxConn), NewConnPool ''db'' 0 4, [Lock, Unlock])
   \<and> fst (repeat_get (\<lambda>q. Get q (Some 7, None) (\<lambda>c. None)) (NewConnPool ''db'' 0 4) 2)
       = [Return (None, Some ErrMaxConn), Return (None, Some ErrMaxConn)]"
  using nonpositive_max_conns [where mc = 0 and nm = "''db''" and mi = 4 and New = "(Some 7, None)"
      and Ping = "\<lambda>c. None" and k = 2]
  by (simp add: numeral_2_eq_2)

section \<open>The free list as a queue\<close>

text \<open>
  With room for all of them, handles returned one by one are appended in that order;
  acquiring with a healthy validator takes the free list from its head.
\<close>

lemma close_each_room:
  "int (length (free p) + length hs) \<le> MaxIdle p \<Longrightarrow>
     close_each p hs = p\<lparr>free := free p @ map Some hs\<rparr>"
proof (induction hs arbitrary: p)
  case Nil
  then show ?case by simp
next
  case (Cons h hs)
  have step: "fst (Close p (Some h)) = p\<lparr>free := free p @ [Some h]\<rparr>"
    using Cons.prems by (simp add: Close_def)
  have "close_each (p\<lparr>free := free p @ [Some h]\<rparr>) hs
          = p\<lparr>free := free p @ [Some h]\<rparr>\<lparr>free := free (p\<lparr>free := free p @ [Some h]\<rparr>) @ map Some hs\<rparr>"
    using Cons.prems by (intro Cons.IH) simp
  with step show ?case by simp
qed

lemma release_each_room:
  "int (length (free p) + length cs) \<le> MaxIdle p \<Longrightarrow>
     release_each p cs = p\<lparr>free := free p @ cs\<rparr>"
proof (induction cs arbitrary: p)
  case Nil
  then show ?case by simp
next
  case (Cons c cs)
  have step: "fst (Release p c) = p\<lparr>free := free p @ [c]\<rparr>"
    using Cons.prems by (simp add: Release_def)
  have "release_each (p\<lparr>free := free p @ [c]\<rparr>) cs
          = p\<lparr>free := free p @ [c]\<rparr>\<lparr>free := free (p\<lparr>free := free p @ [c]\<rparr>) @ cs\<rparr>"
    using Cons.prems by (intro Cons.IH) simp
  with step show ?case by simp
qed

lemma get_reuse_healthy:
  "free p = c # rest \<Longrightarrow>
     Get p New (\<lambda>c. None) = (Return (c, None), p\<lparr>free := rest\<rparr>, [Lock, Validator c, Unlock])
   \<and> Get_mx p New (\<lambda>c. None) = (Return (c, None), p\<lparr>free := rest\<rparr>, [Lock, Unlock, Validator c])"
  by (simp add: Get_def Get_ping_def Get_mx_def Get_ping_mx_def)

lemma drain_free:
  "free p = fs @ rest \<Longrightarrow>
     fst (repeat_get (\<lambda>q. Get q New (\<lambda>c. None)) p (length fs)) = map (\<lambda>c. Return (c, None)) fs
   \<and> fst (snd (repeat_get (\<lambda>q. Get q New (\<lambda>c. None)) p (length fs))) = p\<lparr>free := rest\<rparr>"
proof (induction fs arbitrary: p)
  case Nil
  then show ?case by simp
next
  case (Cons c fs)
  from Cons.prems have "free p = c # (fs @ rest)" by simp
  from get_reuse_healthy [OF this, of New]
  have g: "Get p New (\<lambda>c. None) = (Return (c, None), p\<lparr>free := fs @ rest\<rparr>, [Lock, Validator c, Unlock])"
    by simp
  have "free (p\<lparr>free := fs @ rest\<rparr>) = fs @ rest" by simp
  from Cons.IH [OF this] g show ?case by (auto split: prod.splits)
qed

lemma drain_free_mx:
  "free p = fs @ rest \<Longrightarrow>
     fst (repeat_get (\<lambda>q. Get_mx q New (\<lambda>c. None)) p (length fs)) = map (\<lambda>c. Return (c, None)) fs
   \<and> fst (snd (repeat_get (\<lambda>q. Get_mx q New (\<lambda>c. None)) p (length fs))) = p\<lparr>free := rest\<rparr>"
proof (induction fs arbitrary: p)
  case Nil
  then show ?case by simp
next
  case (Cons c fs)
  from Cons.prems have "free p = c # (fs @ rest)" by simp
  from get_reuse_healthy [OF this, of New]
  have g: "Get_mx p New (\<lambda>c. None) = (Return (c, None), p\<lparr>free := fs @ rest\<rparr>, [Lock, Unlock, Validator c])"
    by simp
  have "free (p\<lparr>free := fs @ rest\<rparr>) = fs @ rest" by simp
  from Cons.IH [OF this] g show ?case by (auto split: prod.splits)
qed

text \<open>
  C7. The free list is first in, first out. With room, \<open>Close\<close> and \<open>Release\<close> append
  the handle at the tail and change nothing else. On a non-empty free list \<open>Get\<close>
  takes the head as its candidate: the head is removed, it is the one argument the
  validator is called with, and the factory is not called. When the validator accepts
  it, the head is returned and the pool is otherwise unchanged, the counter included
  (a validator that rejects it is treated under validation failure). Hence handles returned in the order
  \<open>hs\<close> are handed out again in that order, after the handles that were idle before
  them.
\<close>

theorem free_list_fifo:
  "(int (length (free p)) < MaxIdle p \<longrightarrow>
      Close p (Some h) = (p\<lparr>free := free p @ [Some h]\<rparr>, [Lock, Unlock])
    \<and> Release p c = (p\<lparr>free := free p @ [c]\<rparr>, [Lock, Unlock]))
   \<and> (free p = c # rest \<longrightarrow>
        free (fst (snd (Get p New Ping))) = rest
      \<and> [e \<leftarrow> snd (snd (Get p New Ping)). \<exists>x. e = Validator x] = [Validator c]
      \<and> Factory \<notin> set (snd (snd (Get p New Ping))))
   \<and> (free p = c # rest \<and> Ping c = None \<longrightarrow>
        Get p New Ping = (Return (c, None), p\<lparr>free := rest\<rparr>, [Lock, Validator c, Unlock])
      \<and> Get_mx p New Ping = (Return (c, None), p\<lparr>free := rest\<rparr>, [Lock, Unlock, Validator c]))
   \<and> (int (length (free p) + length hs) \<le> MaxIdle p \<longrightarrow>
        fst (repeat_get (\<lambda>q. Get q New (\<lambda>c. None)) (close_each p hs) (length (free p) + length hs))
          = map (\<lambda>c. Return (c, None)) (free p @ map Some hs)
      \<and> fst (repeat_get (\<lambda>q. Get_mx q New (\<lambda>c. None)) (release_each p (map Some hs))
               (length (free p) + length hs))
          = map (\<lambda>c. Return (c, None)) (free p @ map Some hs))"
proof -
  have a: "int (length (free p)) < MaxIdle p \<longrightarrow>
      Close p (Some h) = (p\<lparr>free := free p @ [Some h]\<rparr>, [Lock, Unlock])
    \<and> Release p c = (p\<lparr>free := free p @ [c]\<rparr>, [Lock, Unlock])"
    by (simp add: Close_def Release_def)
  have b: "free p = c # rest \<longrightarrow>
        free (fst (snd (Get p New Ping))) = rest
      \<and> [e \<leftarrow> snd (snd (Get p New Ping)). \<exists>x. e = Validator x] = [Validator c]
      \<and> Factory \<notin> set (snd (snd (Get p New Ping)))"
    by (cases "Ping c"; cases c) (auto simp: Get_def Get_ping_def)
  have c: "free p = c # rest \<and> Ping c = None \<longrightarrow>
        Get p New Ping = (Return (c, None), p\<lparr>free := rest\<rparr>, [Lock, Validator c, Unlock])
      \<and> Get_mx p New Ping = (Return (c, None), p\<lparr>free := rest\<rparr>, [Lock, Unlock, Validator c])"
    by (simp add: Get_def Get_ping_def Get_mx_def Get_ping_mx_def)
  have d: "fst (repeat_get (\<lambda>q. Get q New (\<lambda>c. None)) (close_each p hs) (length (free p) + length hs))
          = map (\<lambda>c. Return (c, None)) (free p @ map Some hs)"
    if room: "int (length (free p) + length hs) \<le> MaxIdle p"
  proof -
    have "free (close_each p hs) = (free p @ map Some hs) @ []"
      using close_each_room [OF room] by simp
    from drain_free [OF this, of New] show ?thesis by simp
  qed
  have e: "fst (repeat_get (\<lambda>q. Get_mx q New (\<lambda>c. None)) (release_each p (map Some hs))
               (length (free p) + length hs))
          = map (\<lambda>c. Return (c, None)) (free p @ map Some hs)"
    if room: "int (length (free p) + length hs) \<le> MaxIdle p"
  proof -
    have "free (release_each p (map Some hs)) = (free p @ map Some hs) @ []"
      using release_each_room [of p "map Some hs"] room by simp
    from drain_free_mx [OF this, of New] show ?thesis by simp
  qed
  from a b c d e show ?thesis by blast
qed

theorem free_list_fifo_witness:
  "int (length (free (NewConnPool ''db'' 3 3))) < MaxIdle (NewConnPool ''db'' 3 3)
   \<and> Close (NewConnPool ''db'' 3 3) (Some 7)
       = ((NewConnPool ''db'' 3 3)\<lparr>free := [Some 7]\<rparr>, [Lock, Unlock])
   \<and> Get \<lparr>Name = ''db'', MaxConns = 3, MaxIdle = 3, conns = 2, free = [Some 7, Some 8]\<rparr>
         (None, Some (Err ''unused'')) (\<lambda>c. None)
       = (Return (Some 7, None),
          \<lparr>Name = ''db'', MaxConns = 3, MaxIdle = 3, conns = 2, free = [Some 8]\<rparr>,
          [Lock, Validator (Some 7), Unlock])
   \<and> fst (repeat_get (\<lambda>q. Get q (None, Some (Err ''unused'')) (\<lambda>c. None))
            (close_each (NewConnPool ''db'' 3 3) [7, 8, 9]) 3)
       = [Return (Some 7, None), Return (Some 8, None), Return (Some 9, None)]"
proof -
  let ?p = "NewConnPool ''db'' 3 3"
  let ?q = "\<lparr>Name = ''db'', MaxConns = 3, MaxIdle = 3, conns = 2, free = [Some 7, Some 8]\<rparr>"
  let ?New = "(None, Some (Err ''unused'')) :: closer \<times> error option"
  note fresh = free_list_fifo [where p = ?p and h = 7 and hs = "[7, 8, 9]" and New = ?New]
  note idle = free_list_fifo [where p = ?q and c = "Some 7" and rest = "[Some 8]" and New = ?New
      and Ping = "\<lambda>c. None"]
  have room: "int (length (free ?p)) < MaxIdle ?p"
    by (simp add: NewConnPool_def)
  have room3: "int (length (free ?p) + length [7, 8, 9 :: conn]) \<le> MaxIdle ?p"
    by (simp add: NewConnPool_def)
  have len: "length (free ?p) + length [7, 8, 9 :: conn] = 3"
    by (simp add: NewConnPool_def)
  have out: "map (\<lambda>c. Return (c, None :: error option)) (free ?p @ map Some [7, 8, 9 :: conn])
               = [Return (Some 7, None), Return (Some 8, None), Return (Some 9, None)]"
    by (simp add: NewConnPool_def)
  have "Close ?p (Some 7) = (?p\<lparr>free := free ?p @ [Some 7]\<rparr>, [Lock, Unlock])"
    using fresh room by blast
  then have 1: "Close ?p (Some 7) = (?p\<lparr>free := [Some 7]\<rparr>, [Lock, Unlock])"
    by (simp add: NewConnPool_def)
  have 2: "Get ?q ?New (\<lambda>c. None)
             = (Return (Some 7, None), ?q\<lparr>free := [Some 8]\<rparr>, [Lock, Validator (Some 7), Unlock])"
    using idle by simp
  have "fst (repeat_get (\<lambda>q. Get q ?New (\<lambda>c. None)) (close_each ?p [7, 8, 9])
               (length (free ?p) + length [7, 8, 9 :: conn]))
          = map (\<lambda>c. Return (c, None)) (free ?p @ map Some [7, 8, 9])"
    using fresh room3 by blast
  then have 3: "fst (repeat_get (\<lambda>q. Get q ?New (\<lambda>c. None)) (close_each ?p [7, 8, 9]) 3)
          = [Return (Some 7, None), Return (Some 8, None), Return (Some 9, None)]"
    by (simp only: len out)
  from room 1 2 3 show ?thesis by simp
qed

section \<open>Returning a handle twice\<close>

text \<open>
  C9. No method looks whether a returned handle is already in the free list. The claim
  is made for every pool with room in the free list; with room for one handle only,
  the first return fills the list and the second takes the full-list path. What holds
  is the claim for pools with room for two more handles: returning \<open>h\<close> twice appends
  it twice, and acquiring with a healthy validator then hands out the handles that
  were idle before and after them \<open>h\<close> two times.
\<close>

theorem double_release:
  assumes room: "int (length (free p)) + 2 \<le> MaxIdle p"
  shows "fst (Close (fst (Close p (Some h))) (Some h)) = p\<lparr>free := free p @ [Some h, Some h]\<rparr>
       \<and> fst (Release (fst (Release p c)) c) = p\<lparr>free := free p @ [c, c]\<rparr>
       \<and> fst (repeat_get (\<lambda>q. Get q New (\<lambda>c. None)) (fst (Close (fst (Close p (Some h))) (Some h)))
               (length (free p) + 2))
           = map (\<lambda>c. Return (c, None)) (free p) @ [Return (Some h, None), Return (Some h, None)]
       \<and> fst (repeat_get (\<lambda>q. Get_mx q New (\<lambda>c. None)) (fst (Release (fst (Release p (Some h))) (Some h)))
               (length (free p) + 2))
           = map (\<lambda>c. Return (c, None)) (free p) @ [Return (Some h, None), Return (Some h, None)]"
proof -
  have room': "int (length (free p) + length [h, h]) \<le> MaxIdle p"
    using room by simp
  have room'': "int (length (free p) + length [c, c]) \<le> MaxIdle p"
    using room by simp
  have len: "length (free p @ [Some h, Some h]) = length (free p) + 2"
    by simp
  have a: "fst (Close (fst (Close p (Some h))) (Some h)) = p\<lparr>free := free p @ [Some h, Some h]\<rparr>"
    using close_each_room [OF room'] by simp
  have b: "fst (Release (fst (Release p c)) c) = p\<lparr>free := free p @ [c, c]\<rparr>" for c
    using release_each_room [of p "[c, c]"] room by simp
  have f: "free (p\<lparr>free := free p @ [Some h, Some h]\<rparr>) = (free p @ [Some h, Some h]) @ []"
    by simp
  have c: "fst (repeat_get (\<lambda>q. Get q New (\<lambda>c. None)) (p\<lparr>free := free p @ [Some h, Some h]\<rparr>)
               (length (free p) + 2))
           = map (\<lambda>c. Return (c, None)) (free p) @ [Return (Some h, None), Return (Some h, None)]"
    using drain_free [OF f, of New] by (simp only: len) simp
  have d: "fst (repeat_get (\<lambda>q. Get_mx q New (\<lambda>c. None)) (p\<lparr>free := free p @ [Some h, Some h]\<rparr>)
               (length (free p) + 2))
           = map (\<lambda>c. Return (c, None)) (free p) @ [Return (Some h, None), Return (Some h, None)]"
    using drain_free_mx [OF f, of New] by (simp only: len) simp
  from a b [of c] b [of "Some h"] c d show ?thesis by simp
qed

theorem double_release_witness:
  "int (length (free \<lparr>Name = ''db'', MaxConns = 2, MaxIdle = 2, conns = 1, free = []\<rparr>)) + 2
     \<le> MaxIdle \<lparr>Name = ''db'', MaxConns = 2, MaxIdle = 2, conns = 1, free = []\<rparr>
   \<and> fst (Close (fst (Close \<lparr>Name = ''db'', MaxConns = 2, MaxIdle = 2, conns = 1, free = []\<rparr> (Some 7)))
            (Some 7))
       = \<lparr>Name = ''db'', MaxConns = 2, MaxIdle = 2, conns = 1, free = [Some 7, Some 7]\<rparr>
   \<and> fst (repeat_get (\<lambda>q. Get q (None, Some (Err ''unused'')) (\<lambda>c. None))
            (fst (Close (fst (Close \<lparr>Name = ''db'', MaxConns = 2, MaxIdle = 2, conns = 1, free = []\<rparr>
                               (Some 7))) (Some 7))) 2)
       = [Return (Some 7, None), Return (Some 7, None)]"
proof -
  let ?p = "\<lparr>Name = ''db'', MaxConns = 2, MaxIdle = 2, conns = 1, free = []\<rparr>"
  let ?New = "(None, Some (Err ''unused'')) :: closer \<times> error option"
  have room: "int (length (free ?p)) + 2 \<le> MaxIdle ?p"
    by simp
  have len: "length (free ?p) + 2 = 2"
    by simp
  note t = double_release [OF room, where h = 7 and New = ?New]
  from t have 1: "fst (Close (fst (Close ?p (Some 7))) (Some 7)) = ?p\<lparr>free := free ?p @ [Some 7, Some 7]\<rparr>"
    by blast
  from t have "fst (repeat_get (\<lambda>q. Get q ?New (\<lambda>c. None)) (fst (Close (fst (Close ?p (Some 7))) (Some 7)))
               (length (free ?p) + 2))
           = map (\<lambda>c. Return (c, None)) (free ?p) @ [Return (Some 7, None), Return (Some 7, None)]"
    by blast
  then have 2: "fst (repeat_get (\<lambda>q. Get q ?New (\<lambda>c. None)) (fst (Close (fst (Close ?p (Some 7))) (Some 7))) 2)
           = map (\<lambda>c. Return (c, None)) (free ?p) @ [Return (Some 7, None), Return (Some 7, None)]"
    by (simp only: len)
  from room 1 2 show ?thesis by simp
qed

text \<open>
  A pool with \<^verbatim>\<open>MaxIdle = 1\<close> and an empty free list has room. The second \<open>Close\<close> of
  handle 7 finds the list full: it closes the handle, which stays in the free list,
  and takes one from the counter; the second \<open>Release\<close> does not append either.
\<close>

theorem double_release_counterexample:
  "int (length (free \<lparr>Name = ''db'', MaxConns = 2, MaxIdle = 1, conns = 1, free = []\<rparr>))
     < MaxIdle \<lparr>Name = ''db'', MaxConns = 2, MaxIdle = 1, conns = 1, free = []\<rparr>
   \<and> Close (fst (Close \<lparr>Name = ''db'', MaxConns = 2, MaxIdle = 1, conns = 1, free = []\<rparr> (Some 7))) (Some 7)
       = (\<lparr>Name = ''db'', MaxConns = 2, MaxIdle = 1, conns = 0, free = [Some 7]\<rparr>,
          [Lock, CloseConn 7, Unlock])
   \<and> free (fst (Close (fst (Close \<lparr>Name = ''db'', MaxConns = 2, MaxIdle = 1, conns = 1, free = []\<rparr>
                               (Some 7))) (Some 7)))
       \<noteq> free \<lparr>Name = ''db'', MaxConns = 2, MaxIdle = 1, conns = 1, free = []\<rparr> @ [Some 7, Some 7]
   \<and> free (fst (Release (fst (Release \<lparr>Name = ''db'', MaxConns = 2, MaxIdle = 1, conns = 1, free = []\<rparr>
                               (Some 7))) (Some 7)))
       \<noteq> free \<lparr>Name = ''db'', MaxConns = 2, MaxIdle = 1, conns = 1, free = []\<rparr> @ [Some 7, Some 7]"
  by (simp add: Close_def Release_def wrap_int_def int_bits_def)

section \<open>What Get calls while it holds the lock\<close>

text \<open>
  C8. The claim is that \<open>Get\<close> does not hold the lock across the calls of the factory
  and of the validator. Read off the traces: the pool with its own mutex unlocks
  before the ping and before closing a rejected candidate, but calls the factory
  between \<^verbatim>\<open>p.Lock()\<close> and \<^verbatim>\<open>p.Unlock()\<close>; the other two pools defer the unlock
  to the end of \<open>Get\<close>, so none of their calls is made outside the lock. The traces
  are those of one call running alone.
\<close>

theorem lock_scope:
  "(\<forall>c. Validator c \<notin> set (under_lock False (snd (snd (Get_mx p New Ping)))))
   \<and> (\<forall>h. CloseConn h \<notin> set (under_lock False (snd (snd (Get_mx p New Ping)))))
   \<and> Factory \<notin> set (outside_lock False (snd (snd (Get_mx p New Ping))))
   \<and> (free p = [] \<and> conns p < MaxConns p \<longrightarrow>
        Factory \<in> set (under_lock False (snd (snd (Get_mx p New Ping)))))
   \<and> outside_lock False (snd (snd (Get p New Ping))) = []
   \<and> outside_lock False (snd (snd (tcp_Get n timeout resolve dial Ping))) = []"
proof -
  have a: "(\<forall>c. Validator c \<notin> set (under_lock False (snd (snd (Get_mx p New Ping)))))
      \<and> (\<forall>h. CloseConn h \<notin> set (under_lock False (snd (snd (Get_mx p New Ping)))))
      \<and> Factory \<notin> set (outside_lock False (snd (snd (Get_mx p New Ping))))"
    by (cases "free p"; cases New; cases "snd New"; cases "Ping (fst New)"; cases "Ping (hd (free p))";
        cases "fst New"; cases "hd (free p)")
       (auto simp: Get_mx_def Get_ping_mx_def)
  have b: "free p = [] \<and> conns p < MaxConns p \<longrightarrow>
        Factory \<in> set (under_lock False (snd (snd (Get_mx p New Ping))))"
    by (cases New; cases "snd New"; cases "Ping (fst New)"; cases "fst New")
       (auto simp: Get_mx_def Get_ping_mx_def)
  have c: "outside_lock False (snd (snd (Get p New Ping))) = []"
    by (cases "free p"; cases New; cases "snd New"; cases "Ping (fst New)"; cases "Ping (hd (free p))";
        cases "fst New"; cases "hd (free p)")
       (auto simp: Get_def Get_ping_def)
  have d: "outside_lock False (snd (snd (tcp_Get n timeout resolve dial Ping))) = []"
    by (cases "tcp_free n"; cases resolve; cases dial; cases "snd dial"; cases "Ping (fst dial)";
        cases "Ping (hd (tcp_free n))"; cases "fst dial"; cases "hd (tcp_free n)")
       (auto simp: tcp_Get_def tcp_Get_ping_def tcp_open_def)
  from a b c d show ?thesis by blast
qed

theorem lock_scope_witness:
  "free (NewConnPool ''db'' 1 1) = [] \<and> conns (NewConnPool ''db'' 1 1) < MaxConns (NewConnPool ''db'' 1 1)
   \<and> Factory \<in> set (under_lock False (snd (snd (Get_mx (NewConnPool ''db'' 1 1) (Some 7, None) (\<lambda>c. None)))))
   \<and> Validator (Some 7)
       \<notin> set (under_lock False (snd (snd (Get_mx (NewConnPool ''db'' 1 1) (Some 7, None) (\<lambda>c. None)))))"
proof -
  have h: "free (NewConnPool ''db'' 1 1) = [] \<and> conns (NewConnPool ''db'' 1 1) < MaxConns (NewConnPool ''db'' 1 1)"
    by (simp add: NewConnPool_def)
  with lock_scope [where p = "NewConnPool ''db'' 1 1" and New = "(Some 7, None)" and Ping = "\<lambda>c. None"]
  show ?thesis by blast
qed

text \<open>
  On a fresh pool with room for one connection the factory is called under the lock in
  the pool with its own mutex, and factory and validator are called under the lock
  in the other two.
\<close>

theorem lock_scope_counterexample:
  "Factory \<in> set (under_lock False (snd (snd (Get_mx (NewConnPool ''db'' 1 1) (Some 7, None) (\<lambda>c. None)))))
   \<and> Factory \<in> set (under_lock False (snd (snd (Get (NewConnPool ''db'' 1 1) (Some 7, None) (\<lambda>c. None)))))
   \<and> Validator (Some 7)
       \<in> set (under_lock False (snd (snd (Get (NewConnPool ''db'' 1 1) (Some 7, None) (\<lambda>c. None)))))
   \<and> Validator (Some 7)
       \<in> set (under_lock False
                (snd (snd (tcp_Get (NewTcpConnPool ''db:5432'' 1 1 100) 0 None (Some 7, None) (\<lambda>c. None)))))"
  by (simp add: NewConnPool_def NewTcpConnPool_def Get_def Get_ping_def Get_mx_def Get_ping_mx_def
      tcp_Get_def tcp_Get_ping_def tcp_open_def)

end
